theory Spec2Isabelle
  imports Complex_Main "HOL-Library.Multiset" "HOL-Library.Sublist"
begin

section \<open>Data model of \<open>src/components/DrawingApp.tsx\<close>\<close>

text \<open>
  The component keeps its data in React state cells. The embedding below puts every cell
  that the handlers read or write into one record and turns each handler into a function
  from the state before the event to the state after it.

  Conventions of the embedding:
  \<^item> a JavaScript \<open>number\<close> that holds a coordinate or a width is a \<^typ>\<open>real\<close>: rounding of
    IEEE doubles is not represented, arithmetic is exact;
  \<^item> a layer index (\<open>layer\<close>, \<open>currentLayer\<close>, the \<open>idx\<close> of \<open>forEach\<close>) is a \<^typ>\<open>nat\<close>;
  \<^item> \<open>ctx\<close> is \<open>None\<close> for \<open>null\<close> and otherwise carries \<open>ctx.canvas.width\<close> and
    \<open>ctx.canvas.height\<close>, the only properties of the context that the code reads;
  \<^item> a state updater passed to \<open>setActions\<close> or \<open>setRedoStack\<close> is run once, on the current
    value of its cell, and the component is re-rendered between two events, so that every
    handler sees the state its predecessor left;
  \<^item> calls on the 2D context are recorded as a list of \<open>ctx_call\<close> values in the order in
    which they are issued; what the browser rasterises from them is outside the embedding.
\<close>

datatype ToolType = Brush | Eraser | Rectangle | Circle

type_synonym point = "real \<times> real"

record DrawingAction =
  type_a :: ToolType
  points :: "point list"
  color_a :: string
  size_a :: real
  layer :: nat

record Layer =
  name :: string
  visible :: bool

record app_state =
  ctx :: "(real \<times> real) option"
  tool :: ToolType
  color :: string
  brushSize :: real
  actions :: "DrawingAction list"
  redoStack :: "DrawingAction list"
  isDrawing :: bool
  currentPoints :: "point list"
  startPoint :: "point option"
  layers :: "Layer list"
  currentLayer :: nat
  mouse :: "point option"

text \<open>The initial values of the \<open>useState\<close> cells (lines 50--73).\<close>

definition init_state :: app_state where
  "init_state =
     \<lparr> ctx = None, tool = Brush, color = ''#2563eb'', brushSize = 12,
       actions = [], redoStack = [], isDrawing = False, currentPoints = [],
       startPoint = None,
       layers = [\<lparr> name = ''Background'', visible = True \<rparr>,
                 \<lparr> name = ''Sketch'', visible = True \<rparr>],
       currentLayer = 1, mouse = None \<rparr>"

section \<open>The action log\<close>

text \<open>
  Lines 185--188 of \<open>handlePointerUp\<close>: \<open>setActions((prev) => [...prev, action])\<close> followed
  by \<open>setRedoStack([])\<close>.
\<close>

definition commit :: "DrawingAction \<Rightarrow> app_state \<Rightarrow> app_state" where
  "commit action s = s\<lparr> actions := actions s @ [action], redoStack := [] \<rparr>"

text \<open>
  \<open>handleUndo\<close> (lines 192--198). The updater of \<open>setActions\<close> returns \<open>prev\<close> itself when it
  is empty; otherwise it pushes \<open>prev[prev.length - 1]\<close> onto the end of the redo stack and
  returns \<open>prev.slice(0, -1)\<close>.
\<close>

definition handleUndo :: "app_state \<Rightarrow> app_state" where
  "handleUndo s =
     (let prev = actions s in
      if length prev = 0 then s
      else s\<lparr> redoStack := redoStack s @ [last prev], actions := butlast prev \<rparr>)"

text \<open>\<open>handleRedo\<close> (lines 199--205), the mirror image on \<open>setRedoStack\<close>.\<close>

definition handleRedo :: "app_state \<Rightarrow> app_state" where
  "handleRedo s =
     (let redo = redoStack s in
      if length redo = 0 then s
      else s\<lparr> actions := actions s @ [last redo], redoStack := butlast redo \<rparr>)"

text \<open>\<open>handleClear\<close> (lines 206--209) filters on the layer selected at the moment.\<close>

definition handleClear :: "app_state \<Rightarrow> app_state" where
  "handleClear s =
     s\<lparr> actions := filter (\<lambda>a. layer a \<noteq> currentLayer s) (actions s), redoStack := [] \<rparr>"

text \<open>\<open>setCurrentLayer(idx)\<close>, the click handler of a layer row (line 371).\<close>

definition setCurrentLayer :: "nat \<Rightarrow> app_state \<Rightarrow> app_state" where
  "setCurrentLayer idx s = s\<lparr> currentLayer := idx \<rparr>"

text \<open>
  The four operations of the log as the user can issue them. Clearing layer \<open>i\<close> is selecting
  that layer and pressing the clear button.
\<close>

datatype log_op = Commit DrawingAction | Undo | Redo | ClearLayer nat

fun apply_op :: "log_op \<Rightarrow> app_state \<Rightarrow> app_state" where
  "apply_op (Commit a) s = commit a s"
| "apply_op Undo s = handleUndo s"
| "apply_op Redo s = handleRedo s"
| "apply_op (ClearLayer i) s = handleClear (setCurrentLayer i s)"

fun created :: "log_op list \<Rightarrow> DrawingAction list" where
  "created [] = []"
| "created (Commit a # ops) = a # created ops"
| "created (_ # ops) = created ops"

section \<open>The calls on the drawing context\<close>

datatype ctx_call =
    Save
  | Restore
  | SetLineCap string
  | SetLineJoin string
  | SetStrokeStyle string
  | SetLineWidth real
  | SetGlobalAlpha real
  | BeginPath
  | MoveTo real real
  | LineTo real real
  | Stroke
  | StrokeRect real real real real
  | Arc real real real real real
  | ClearRect real real real real

text \<open>
  The calls that build a path or put ink on the surface, as opposed to those that save,
  restore or configure the context.
\<close>

fun drawing_primitive :: "ctx_call \<Rightarrow> bool" where
  "drawing_primitive BeginPath = True"
| "drawing_primitive (MoveTo x y) = True"
| "drawing_primitive (LineTo x y) = True"
| "drawing_primitive Stroke = True"
| "drawing_primitive (StrokeRect x y w h) = True"
| "drawing_primitive (Arc x y r a0 a1) = True"
| "drawing_primitive (ClearRect x y w h) = True"
| "drawing_primitive _ = False"

section \<open>Pointer gestures\<close>

text \<open>
  The position \<open>pos\<close> is the result of \<open>getCursorPosition(e)\<close>; \<open>off\<close> stands for the pair
  \<open>(e.nativeEvent.offsetX, e.nativeEvent.offsetY)\<close>.
\<close>

definition stroke_tool :: "ToolType \<Rightarrow> bool" where
  "stroke_tool t = (t = Brush \<or> t = Eraser)"

definition handlePointerDown :: "point \<Rightarrow> app_state \<Rightarrow> app_state" where
  "handlePointerDown pos s =
     (if ctx s = None then s
      else
        let s1 = s\<lparr> isDrawing := True, startPoint := Some pos \<rparr> in
        if stroke_tool (tool s) then s1\<lparr> currentPoints := [pos] \<rparr> else s1)"

text \<open>
  \<open>handlePointerMove\<close> (lines 143--160). The second component is the live preview drawn
  straight onto the context; \<open>prev\<close> is read from the \<open>currentPoints\<close> of the render in which
  the handler was created.
\<close>

definition handlePointerMove ::
  "point \<Rightarrow> point \<Rightarrow> app_state \<Rightarrow> app_state \<times> ctx_call list" where
  "handlePointerMove pos off s =
     (if ctx s = None then (s, [])
      else
        let s1 = s\<lparr> mouse := Some off \<rparr> in
        if \<not> isDrawing s then (s1, [])
        else if stroke_tool (tool s) then
          (let prev = (if length (currentPoints s) \<noteq> 0 then last (currentPoints s) else pos)
           in (s1\<lparr> currentPoints := currentPoints s @ [pos] \<rparr>,
               [Save,
                SetStrokeStyle (if tool s = Eraser then ''#fff'' else color s),
                SetLineWidth (brushSize s),
                BeginPath,
                MoveTo (fst prev) (snd prev),
                LineTo (fst pos) (snd pos),
                Stroke,
                Restore]))
        else (s1, []))"

text \<open>
  \<open>handlePointerUp\<close> (lines 162--190). The action is built from the tool, colour, size and
  layer selected at the moment of release; a stroke takes the accumulated points and the
  release position, a shape takes the start point and the release position.
\<close>

definition handlePointerUp :: "point \<Rightarrow> app_state \<Rightarrow> app_state" where
  "handlePointerUp pos s =
     (if ctx s = None then s
      else
        let s1 = s\<lparr> isDrawing := False \<rparr>;
            (action, s2) =
              (if stroke_tool (tool s) then
                 (Some \<lparr> type_a = tool s, points = currentPoints s @ [pos],
                         color_a = color s, size_a = brushSize s,
                         layer = currentLayer s \<rparr>,
                  s1\<lparr> currentPoints := [] \<rparr>)
               else if (tool s = Rectangle \<or> tool s = Circle) \<and> startPoint s \<noteq> None then
                 (Some \<lparr> type_a = tool s, points = [the (startPoint s), pos],
                         color_a = color s, size_a = brushSize s,
                         layer = currentLayer s \<rparr>,
                  s1)
               else (None, s1));
            s3 = (case action of Some a \<Rightarrow> commit a s2 | None \<Rightarrow> s2)
        in s3\<lparr> startPoint := None \<rparr>)"

text \<open>The \<open>onMouseLeave\<close> handler of the canvas (line 410): \<open>() => setIsDrawing(false)\<close>.\<close>

definition onMouseLeave :: "app_state \<Rightarrow> app_state" where
  "onMouseLeave s = s\<lparr> isDrawing := False \<rparr>"

text \<open>The pointer events of the canvas element (lines 407--410).\<close>

datatype pointer_event =
    MouseDown point
  | MouseMove point point
  | MouseUp point
  | MouseLeave

fun on_event :: "pointer_event \<Rightarrow> app_state \<Rightarrow> app_state" where
  "on_event (MouseDown pos) s = handlePointerDown pos s"
| "on_event (MouseMove pos off) s = fst (handlePointerMove pos off s)"
| "on_event (MouseUp pos) s = handlePointerUp pos s"
| "on_event MouseLeave s = onMouseLeave s"

section \<open>The replay renderer\<close>

text \<open>
  Destructuring \<open>const [x, y] = action.points[i]\<close> throws a \<open>TypeError\<close> when the index is
  out of range, since \<open>undefined\<close> is not iterable.
\<close>

datatype js_error = TypeError

definition destructure :: "point list \<Rightarrow> nat \<Rightarrow> js_error + point" where
  "destructure ps i = (if i < length ps then Inr (ps ! i) else Inl TypeError)"

text \<open>Running one block of calls after another; an exception ends the run.\<close>

fun seq_calls ::
  "js_error + ctx_call list \<Rightarrow> js_error + ctx_call list \<Rightarrow> js_error + ctx_call list" where
  "seq_calls (Inl e) r = Inl e"
| "seq_calls (Inr cs) (Inl e) = Inl e"
| "seq_calls (Inr cs) (Inr ds) = Inr (cs @ ds)"

text \<open>The callback of \<open>action.points.forEach\<close> (lines 103--106), with its index.\<close>

fun points_forEach :: "point list \<Rightarrow> nat \<Rightarrow> ctx_call list" where
  "points_forEach [] i = []"
| "points_forEach ((x, y) # ps) i =
     (if i = 0 then MoveTo x y else LineTo x y) # points_forEach ps (Suc i)"

text \<open>\<open>drawAction\<close> (lines 94--121).\<close>

definition drawAction :: "DrawingAction \<Rightarrow> js_error + ctx_call list" where
  "drawAction action =
     seq_calls
       (Inr [Save,
             SetLineCap ''round'',
             SetLineJoin ''round'',
             SetStrokeStyle (if type_a action = Eraser then ''#fff'' else color_a action),
             SetLineWidth (size_a action),
             SetGlobalAlpha 1])
       (seq_calls
         (if type_a action = Brush \<or> type_a action = Eraser then
            Inr (BeginPath # points_forEach (points action) 0 @ [Stroke])
          else if type_a action = Rectangle \<and> length (points action) = 2 then
            (case destructure (points action) 0 of
               Inl e \<Rightarrow> Inl e
             | Inr (x0, y0) \<Rightarrow>
                 (case destructure (points action) 1 of
                    Inl e \<Rightarrow> Inl e
                  | Inr (x1, y1) \<Rightarrow> Inr [StrokeRect x0 y0 (x1 - x0) (y1 - y0)]))
          else if type_a action = Circle \<and> length (points action) = 2 then
            (case destructure (points action) 0 of
               Inl e \<Rightarrow> Inl e
             | Inr (x0, y0) \<Rightarrow>
                 (case destructure (points action) 1 of
                    Inl e \<Rightarrow> Inl e
                  | Inr (x1, y1) \<Rightarrow>
                      (let r = sqrt ((x1 - x0)\<^sup>2 + (y1 - y0)\<^sup>2)
                       in Inr [BeginPath, Arc x0 y0 r 0 (2 * pi), Stroke])))
          else Inr [])
         (Inr [Restore]))"

text \<open>The inner loop of the redraw effect (line 90): \<open>forEach((action) => drawAction(ctx, action))\<close>.\<close>

fun actions_forEach :: "DrawingAction list \<Rightarrow> js_error + ctx_call list" where
  "actions_forEach [] = Inr []"
| "actions_forEach (a # as) = seq_calls (drawAction a) (actions_forEach as)"

text \<open>
  The outer loop (lines 86--91): \<open>layers.forEach((layer, idx) => ...)\<close>, with the index that
  \<open>forEach\<close> passes to its callback.
\<close>

fun layers_forEach :: "Layer list \<Rightarrow> nat \<Rightarrow> DrawingAction list \<Rightarrow> js_error + ctx_call list" where
  "layers_forEach [] idx acts = Inr []"
| "layers_forEach (l # ls) idx acts =
     seq_calls
       (if \<not> visible l then Inr []
        else actions_forEach (filter (\<lambda>a. layer a = idx) acts))
       (layers_forEach ls (Suc idx) acts)"

text \<open>
  The redraw effect (lines 83--92). The guard also tests \<open>canvasRef.current\<close>, which is the
  element the context was obtained from and so is present whenever \<open>ctx\<close> is.
\<close>

definition redraw :: "app_state \<Rightarrow> js_error + ctx_call list" where
  "redraw s =
     (case ctx s of
        None \<Rightarrow> Inr []
      | Some (w, h) \<Rightarrow>
          seq_calls (Inr [ClearRect 0 0 w h]) (layers_forEach (layers s) 0 (actions s)))"

text \<open>The calls that a successful \<open>drawAction\<close> issues.\<close>

definition drawAction_calls :: "DrawingAction \<Rightarrow> ctx_call list" where
  "drawAction_calls a = (case drawAction a of Inr cs \<Rightarrow> cs | Inl e \<Rightarrow> [])"

text \<open>
  The Euclidean distance between two points of the plane, as the specification words it.
\<close>

definition euclidean_distance :: "point \<Rightarrow> point \<Rightarrow> real" where
  "euclidean_distance p q = sqrt ((fst p - fst q)\<^sup>2 + (snd p - snd q)\<^sup>2)"

section \<open>Example data\<close>

text \<open>
  The effect of lines 76--80 stores the 2D context once the canvas is mounted; the pair is the
  pixel size of the canvas.
\<close>

definition setCtx :: "real \<times> real \<Rightarrow> app_state \<Rightarrow> app_state" where
  "setCtx c s = s\<lparr> ctx := Some c \<rparr>"

definition ready_state :: app_state where
  "ready_state = setCtx (896, 520) init_state"

text \<open>The actions of the specification's example scenarios, and a shape with one point.\<close>

definition ex_stroke :: DrawingAction where
  "ex_stroke = \<lparr> type_a = Brush, points = [(0, 0), (10, 10)], color_a = ''#000000'',
                 size_a = 12, layer = 0 \<rparr>"

definition ex_rect :: DrawingAction where
  "ex_rect = \<lparr> type_a = Rectangle, points = [(0, 0), (20, 20)], color_a = ''#e11d48'',
               size_a = 12, layer = 1 \<rparr>"

definition ex_circle :: DrawingAction where
  "ex_circle = \<lparr> type_a = Circle, points = [(50, 50), (53, 54)], color_a = ''#2563eb'',
                 size_a = 4, layer = 1 \<rparr>"

definition ex_bad_rect :: DrawingAction where
  "ex_bad_rect = \<lparr> type_a = Rectangle, points = [(7, 7)], color_a = ''#22c55e'',
                   size_a = 12, layer = 0 \<rparr>"

definition ex_log3 :: app_state where
  "ex_log3 = fold commit [ex_stroke, ex_rect, ex_circle] init_state"

section \<open>Properties of the action log\<close>

subsection \<open>Single steps\<close>

lemma actions_commits: "actions (fold commit as s) = actions s @ as"
  by (induction as arbitrary: s) (simp_all add: commit_def)

lemma redoStack_commits: "as \<noteq> [] \<Longrightarrow> redoStack (fold commit as s) = []"
  by (induction as arbitrary: s rule: rev_induct) (simp_all add: commit_def)

lemma handleUndo_snoc:
  "actions s = cs @ [a] \<Longrightarrow> handleUndo s = s\<lparr> redoStack := redoStack s @ [a], actions := cs \<rparr>"
  by (simp add: handleUndo_def)

lemma handleRedo_snoc:
  "redoStack s = us @ [a] \<Longrightarrow> handleRedo s = s\<lparr> actions := actions s @ [a], redoStack := us \<rparr>"
  by (simp add: handleRedo_def)

lemma handleUndo_empty: "actions s = [] \<Longrightarrow> handleUndo s = s"
  by (simp add: handleUndo_def)

lemma handleRedo_empty: "redoStack s = [] \<Longrightarrow> handleRedo s = s"
  by (simp add: handleRedo_def)

text \<open>
  A release with a context and a stroke tool selected is a \<open>commit\<close> of the stroke built
  from the accumulated points, as far as the log is concerned.
\<close>

lemma handlePointerUp_stroke_commits:
  assumes "ctx s \<noteq> None" and "stroke_tool (tool s)"
  shows "actions (handlePointerUp pos s) =
           actions s @ [\<lparr> type_a = tool s, points = currentPoints s @ [pos],
                            color_a = color s, size_a = brushSize s,
                            layer = currentLayer s \<rparr>]"
    and "redoStack (handlePointerUp pos s) = []"
  using assms by (auto simp: handlePointerUp_def commit_def)

subsection \<open>Runs of undos and redos\<close>

text \<open>
  Undoing as many times as a suffix of the committed list is long moves that suffix,
  reversed, onto the end of the redo stack; redoing as many times as a suffix of the redo
  stack is long moves it back, reversed again.
\<close>

lemma undos_split:
  "actions s = cs @ ds \<Longrightarrow>
   actions ((handleUndo ^^ length ds) s) = cs \<and>
   redoStack ((handleUndo ^^ length ds) s) = redoStack s @ rev ds"
proof (induction ds arbitrary: s rule: rev_induct)
  case Nil
  then show ?case by simp
next
  case (snoc d ds)
  then have "actions s = (cs @ ds) @ [d]" by simp
  then have u: "handleUndo s = s\<lparr> redoStack := redoStack s @ [d], actions := cs @ ds \<rparr>"
    by (rule handleUndo_snoc)
  have "(handleUndo ^^ length (ds @ [d])) s = (handleUndo ^^ length ds) (handleUndo s)"
    by (simp add: funpow_swap1)
  moreover have "actions (handleUndo s) = cs @ ds" using u by simp
  ultimately show ?case using snoc.IH [of "handleUndo s"] u by simp
qed

lemma redos_split:
  "redoStack s = us @ rs \<Longrightarrow>
   actions ((handleRedo ^^ length rs) s) = actions s @ rev rs \<and>
   redoStack ((handleRedo ^^ length rs) s) = us"
proof (induction rs arbitrary: s rule: rev_induct)
  case Nil
  then show ?case by simp
next
  case (snoc r rs)
  then have "redoStack s = (us @ rs) @ [r]" by simp
  then have u: "handleRedo s = s\<lparr> actions := actions s @ [r], redoStack := us @ rs \<rparr>"
    by (rule handleRedo_snoc)
  have "(handleRedo ^^ length (rs @ [r])) s = (handleRedo ^^ length rs) (handleRedo s)"
    by (simp add: funpow_swap1)
  moreover have "redoStack (handleRedo s) = us @ rs" using u by simp
  ultimately show ?case using snoc.IH [of "handleRedo s"] u by simp
qed

lemma commits_undos_redos:
  assumes M: "M \<le> length as" and K: "K \<le> M"
  shows "actions ((handleRedo ^^ K) ((handleUndo ^^ M) (fold commit as s)))
           = actions s @ take (length as - M + K) as"
proof (cases "M = 0")
  case True
  with K show ?thesis by (simp add: actions_commits)
next
  case False
  with M have ne: "as \<noteq> []" by auto
  let ?s1 = "fold commit as s"
  let ?keep = "take (length as - M) as"
  let ?und = "drop (length as - M) as"
  have a1: "actions ?s1 = (actions s @ ?keep) @ ?und" by (simp add: actions_commits)
  have lu: "length ?und = M" using M by simp
  from undos_split [OF a1] lu
  have a2: "actions ((handleUndo ^^ M) ?s1) = actions s @ ?keep"
    and r2: "redoStack ((handleUndo ^^ M) ?s1) = rev ?und"
    using redoStack_commits [OF ne, of s] by simp_all
  let ?s2 = "(handleUndo ^^ M) ?s1"
  let ?again = "take K ?und"
  let ?rest = "drop K ?und"
  have r2': "redoStack ?s2 = rev ?rest @ rev ?again"
    by (metis r2 append_take_drop_id rev_append)
  have la: "length (rev ?again) = K" using K lu by simp
  from redos_split [OF r2'] la
  have a3: "actions ((handleRedo ^^ K) ?s2) = actions s @ (?keep @ ?again)"
    using a2 by simp
  have "?keep @ ?again = take (length as - M + K) as"
    by (simp add: take_add)
  with a3 show ?thesis by simp
qed

subsection \<open>Conservation of actions\<close>

lemma handleUndo_mset:
  "mset (actions (handleUndo s)) + mset (redoStack (handleUndo s))
     = mset (actions s) + mset (redoStack s)"
proof (cases "actions s" rule: rev_cases)
  case Nil
  then show ?thesis by (simp add: handleUndo_def)
next
  case (snoc cs a)
  then show ?thesis by (simp add: handleUndo_snoc)
qed

lemma handleRedo_mset:
  "mset (actions (handleRedo s)) + mset (redoStack (handleRedo s))
     = mset (actions s) + mset (redoStack s)"
proof (cases "redoStack s" rule: rev_cases)
  case Nil
  then show ?thesis by (simp add: handleRedo_def)
next
  case (snoc us a)
  then show ?thesis by (simp add: handleRedo_snoc)
qed

lemma apply_op_mset:
  "mset (actions (apply_op op s)) + mset (redoStack (apply_op op s))
     \<subseteq># mset (actions s) + mset (redoStack s) + mset (created [op])"
proof (cases op)
  case (Commit a)
  then show ?thesis by (simp add: commit_def)
next
  case Undo
  then show ?thesis by (simp add: handleUndo_mset)
next
  case Redo
  then show ?thesis by (simp add: handleRedo_mset)
next
  case (ClearLayer i)
  have "filter_mset (\<lambda>a. layer a \<noteq> i) (mset (actions s)) \<subseteq># mset (actions s)"
    by (rule multiset_filter_subset)
  also have "\<dots> \<subseteq># mset (actions s) + mset (redoStack s)" by simp
  finally show ?thesis using ClearLayer
    by (simp add: handleClear_def setCurrentLayer_def)
qed

lemma created_Cons: "created (op # ops) = created [op] @ created ops"
  by (cases op) simp_all

lemma run_mset:
  "mset (actions (fold apply_op ops s)) + mset (redoStack (fold apply_op ops s))
     \<subseteq># mset (actions s) + mset (redoStack s) + mset (created ops)"
proof (induction ops arbitrary: s)
  case Nil
  then show ?case by simp
next
  case (Cons op ops)
  have "mset (actions (fold apply_op (op # ops) s)) + mset (redoStack (fold apply_op (op # ops) s))
          \<subseteq># mset (actions (apply_op op s)) + mset (redoStack (apply_op op s)) + mset (created ops)"
    using Cons.IH [of "apply_op op s"] by simp
  also have "\<dots> \<subseteq># (mset (actions s) + mset (redoStack s) + mset (created [op])) + mset (created ops)"
    using apply_op_mset [of op s] by (simp only: mset_subset_eq_mono_add_right_cancel)
  also have "\<dots> = mset (actions s) + mset (redoStack s) + mset (created (op # ops))"
    by (subst (2) created_Cons) (simp add: ac_simps)
  finally show ?case .
qed

lemma distinct_of_mset_subset:
  assumes "mset xs \<subseteq># mset ys" and "distinct ys"
  shows "distinct xs"
proof -
  have "count (mset xs) a \<le> 1" for a
  proof -
    have "count (mset xs) a \<le> count (mset ys) a"
      using assms(1) by (rule mset_subset_eq_count)
    also have "\<dots> \<le> 1" using assms(2) by (simp add: distinct_count_atmost_1)
    finally show ?thesis .
  qed
  then show ?thesis unfolding distinct_count_atmost_1
    by (metis count_mset_0_iff le_antisym One_nat_def Suc_leI count_greater_zero_iff linorder_not_le not_gr_zero)
qed

section \<open>Properties of the renderer\<close>

lemma drawAction_Inr: "drawAction a = Inr (drawAction_calls a)"
  by (cases "points a" rule: list.exhaust; cases "type_a a")
     (auto simp: drawAction_def drawAction_calls_def destructure_def Let_def
           split: prod.splits sum.splits)

lemma actions_forEach_Inr: "actions_forEach as = Inr (concat (map drawAction_calls as))"
  by (induction as) (simp_all add: drawAction_Inr)

lemma layers_forEach_Inr:
  "layers_forEach ls k acts =
     Inr (concat (map drawAction_calls
       (concat (map (\<lambda>idx. filter (\<lambda>a. layer a = idx) acts)
                    (filter (\<lambda>idx. visible (ls ! (idx - k))) [k..<k + length ls])))))"
proof (induction ls arbitrary: k)
  case Nil
  then show ?case by simp
next
  case (Cons l ls)
  have upt: "[k..<k + length (l # ls)] = k # [Suc k..<Suc k + length ls]"
    by (subst upt_rec) simp
  have tl: "filter (\<lambda>idx. visible ((l # ls) ! (idx - k))) [Suc k..<Suc k + length ls]
              = filter (\<lambda>idx. visible (ls ! (idx - Suc k))) [Suc k..<Suc k + length ls]"
  proof (rule filter_cong [OF refl])
    fix idx assume "idx \<in> set [Suc k..<Suc k + length ls]"
    then have "idx - k = Suc (idx - Suc k)" by auto
    then show "visible ((l # ls) ! (idx - k)) = visible (ls ! (idx - Suc k))" by simp
  qed
  show ?case
    unfolding upt using Cons.IH [of "Suc k"] tl
    by (simp add: actions_forEach_Inr)
qed

section \<open>The claims\<close>

text \<open>
  C1. From any state, and in particular from one whose log is empty, committing the actions
  \<open>as\<close> one after the other (\<open>N = length as\<close>), then undoing \<open>M \<le> N\<close> times, then redoing
  \<open>K \<le> M\<close> times leaves as \<open>actions\<close> what was committed before followed by the first
  \<open>N - M + K\<close> elements of \<open>as\<close>, in their order; from the empty log that is exactly the first
  \<open>N - M + K\<close> elements of \<open>as\<close>.
\<close>

theorem commits_undos_redos_prefix:
  assumes "M \<le> length as" and "K \<le> M"
  shows "actions ((handleRedo ^^ K) ((handleUndo ^^ M) (fold commit as s)))
           = actions s @ take (length as - M + K) as
         \<and> actions ((handleRedo ^^ K) ((handleUndo ^^ M)
                (fold commit as (s\<lparr> actions := [], redoStack := [] \<rparr>))))
           = take (length as - M + K) as"
  using commits_undos_redos [OF assms, of s]
    commits_undos_redos [OF assms, of "s\<lparr> actions := [], redoStack := [] \<rparr>"]
  by simp

theorem commits_undos_redos_prefix_witness:
  "(2::nat) \<le> length [ex_stroke, ex_rect, ex_circle] \<and> (1::nat) \<le> 2
   \<and> actions ((handleRedo ^^ 1) ((handleUndo ^^ 2)
         (fold commit [ex_stroke, ex_rect, ex_circle] init_state)))
       = [ex_stroke, ex_rect]"
  using commits_undos_redos_prefix [of 2 "[ex_stroke, ex_rect, ex_circle]" 1 init_state]
  by (simp add: init_state_def)

text \<open>
  C2. \<open>commit\<close> appends the action to the end of \<open>actions\<close> and empties \<open>redoStack\<close>.
  Consequently, after any number \<open>n\<close> of undos followed by at least one commit, \<open>handleRedo\<close>
  returns the state unchanged, so neither list changes.
\<close>

theorem commit_clears_redo:
  "actions (commit a s) = actions s @ [a]
   \<and> redoStack (commit a s) = []
   \<and> handleRedo (fold commit (a # as) ((handleUndo ^^ n) s))
       = fold commit (a # as) ((handleUndo ^^ n) s)"
proof -
  have "redoStack (fold commit (a # as) ((handleUndo ^^ n) s)) = []"
    by (rule redoStack_commits) simp
  then have "handleRedo (fold commit (a # as) ((handleUndo ^^ n) s))
               = fold commit (a # as) ((handleUndo ^^ n) s)"
    by (rule handleRedo_empty)
  then show ?thesis by (simp add: commit_def)
qed

theorem commit_clears_redo_witness:
  "redoStack (handleUndo ex_log3) = [ex_circle]
   \<and> handleRedo (fold commit [ex_bad_rect] ((handleUndo ^^ 1) ex_log3))
       = fold commit [ex_bad_rect] ((handleUndo ^^ 1) ex_log3)
   \<and> actions (fold commit [ex_bad_rect] ((handleUndo ^^ 1) ex_log3))
       = [ex_stroke, ex_rect, ex_bad_rect]"
  using commit_clears_redo [of ex_bad_rect ex_log3 "[]" 1]
  by (simp add: ex_log3_def init_state_def commit_def handleUndo_def)

text \<open>
  C3. Clearing layer \<open>i\<close> (selecting it and running \<open>handleClear\<close>) keeps in \<open>actions\<close> the
  actions whose \<open>layer\<close> differs from \<open>i\<close>, in their former relative order, removes exactly the
  actions whose \<open>layer\<close> is \<open>i\<close>, and empties \<open>redoStack\<close>.
\<close>

theorem clear_removes_exactly_layer:
  "actions (handleClear (setCurrentLayer i s)) = filter (\<lambda>a. layer a \<noteq> i) (actions s)
   \<and> subseq (actions (handleClear (setCurrentLayer i s))) (actions s)
   \<and> mset (actions s) = mset (actions (handleClear (setCurrentLayer i s)))
                         + mset (filter (\<lambda>a. layer a = i) (actions s))
   \<and> redoStack (handleClear (setCurrentLayer i s)) = []"
proof -
  have "mset (actions s) = filter_mset (\<lambda>a. layer a \<noteq> i) (mset (actions s))
                           + filter_mset (\<lambda>a. layer a = i) (mset (actions s))"
    using multiset_partition [of "mset (actions s)" "\<lambda>a. layer a \<noteq> i"] by simp
  then show ?thesis
    by (simp add: handleClear_def setCurrentLayer_def)
qed

theorem clear_removes_exactly_layer_witness:
  "actions (handleClear (setCurrentLayer 1 (handleUndo ex_log3))) = [ex_stroke]
   \<and> redoStack (handleClear (setCurrentLayer 1 (handleUndo ex_log3))) = []
   \<and> redoStack (handleUndo ex_log3) = [ex_circle]"
  using clear_removes_exactly_layer [of 1 "handleUndo ex_log3"]
  by (simp add: ex_log3_def init_state_def commit_def handleUndo_def
        ex_stroke_def ex_rect_def ex_circle_def)

text \<open>
  C4. With a context present, the redraw effect first clears the rectangle from the origin
  to the canvas width and height, then goes through the layers by ascending index, passes
  over every layer whose \<open>visible\<close> flag is false, and for each visible layer runs
  \<open>drawAction\<close> on exactly the committed actions whose \<open>layer\<close> is that index, in the order
  in which they stand in \<open>actions\<close>.
\<close>

theorem redraw_replays_visible_layers_in_order:
  "redraw (s\<lparr> ctx := Some (w, h) \<rparr>) =
     Inr (ClearRect 0 0 w h #
          concat (map drawAction_calls
            (concat (map (\<lambda>idx. filter (\<lambda>a. layer a = idx) (actions s))
                         (filter (\<lambda>idx. visible (layers s ! idx)) [0..<length (layers s)])))))"
  using layers_forEach_Inr [of "layers s" 0 "actions s"]
  by (simp add: redraw_def)

theorem redraw_replays_visible_layers_in_order_witness:
  "redraw (ex_log3\<lparr> ctx := Some (896, 520),
                      layers := [\<lparr> name = ''Background'', visible = False \<rparr>,
                                 \<lparr> name = ''Sketch'', visible = True \<rparr>] \<rparr>)
     = Inr (ClearRect 0 0 896 520 # drawAction_calls ex_rect @ drawAction_calls ex_circle)"
  using redraw_replays_visible_layers_in_order
    [where s = "ex_log3\<lparr> layers := [\<lparr> name = ''Background'', visible = False \<rparr>,
                                    \<lparr> name = ''Sketch'', visible = True \<rparr>] \<rparr>"
       and w = 896 and h = 520]
  by (simp add: ex_log3_def init_state_def commit_def upt_rec
        ex_stroke_def ex_rect_def ex_circle_def)

text \<open>
  C8. For a circle action with the two points \<open>p0\<close> and \<open>p1\<close>, \<open>drawAction\<close> begins a path,
  adds the full arc centred at \<open>p0\<close> whose radius is the Euclidean distance between \<open>p0\<close> and
  \<open>p1\<close>, and strokes it. For the points \<open>(50, 50)\<close> and \<open>(53, 54)\<close> the centre is \<open>(50, 50)\<close>
  and the radius is \<open>5\<close>. Coordinates are real numbers here.
\<close>

theorem circle_radius_is_distance:
  assumes "type_a a = Circle" and "points a = [p0, p1]"
  shows "drawAction a =
           Inr [Save, SetLineCap ''round'', SetLineJoin ''round'',
                SetStrokeStyle (color_a a), SetLineWidth (size_a a), SetGlobalAlpha 1,
                BeginPath,
                Arc (fst p0) (snd p0) (euclidean_distance p0 p1) 0 (2 * pi),
                Stroke, Restore]
         \<and> drawAction ex_circle =
           Inr [Save, SetLineCap ''round'', SetLineJoin ''round'',
                SetStrokeStyle ''#2563eb'', SetLineWidth 4, SetGlobalAlpha 1,
                BeginPath, Arc 50 50 5 0 (2 * pi), Stroke, Restore]"
proof
  show "drawAction a =
           Inr [Save, SetLineCap ''round'', SetLineJoin ''round'',
                SetStrokeStyle (color_a a), SetLineWidth (size_a a), SetGlobalAlpha 1,
                BeginPath,
                Arc (fst p0) (snd p0) (euclidean_distance p0 p1) 0 (2 * pi),
                Stroke, Restore]"
    using assms
    by (cases p0; cases p1)
       (simp add: drawAction_def destructure_def euclidean_distance_def power2_commute)
  have "sqrt ((53 - 50)\<^sup>2 + (54 - 50)\<^sup>2) = (5::real)"
  proof -
    have "(53 - 50)\<^sup>2 + (54 - 50)\<^sup>2 = (5::real)\<^sup>2" by (simp add: power2_eq_square)
    then have "sqrt ((53 - 50)\<^sup>2 + (54 - 50)\<^sup>2) = sqrt ((5::real)\<^sup>2)" by (rule arg_cong)
    also have "\<dots> = 5" by (simp only: real_sqrt_abs abs_numeral)
    finally show ?thesis .
  qed
  then show "drawAction ex_circle =
           Inr [Save, SetLineCap ''round'', SetLineJoin ''round'',
                SetStrokeStyle ''#2563eb'', SetLineWidth 4, SetGlobalAlpha 1,
                BeginPath, Arc 50 50 5 0 (2 * pi), Stroke, Restore]"
    by (simp add: drawAction_def destructure_def ex_circle_def)
qed

theorem circle_radius_is_distance_witness:
  "type_a ex_circle = Circle \<and> points ex_circle = [(50, 50), (53, 54)]
   \<and> drawAction ex_circle =
       Inr [Save, SetLineCap ''round'', SetLineJoin ''round'',
            SetStrokeStyle ''#2563eb'', SetLineWidth 4, SetGlobalAlpha 1,
            BeginPath, Arc 50 50 (euclidean_distance (50, 50) (53, 54)) 0 (2 * pi),
            Stroke, Restore]"
  using circle_radius_is_distance [of ex_circle "(50, 50)" "(53, 54)"]
  by (simp add: ex_circle_def)

text \<open>
  C10. For a rectangle or circle action whose \<open>points\<close> list does not have exactly two
  entries, \<open>drawAction\<close> only saves, configures and restores the context: it issues no call
  that builds a path or paints. \<open>drawAction\<close> returns without an exception for every action,
  and so does the redraw effect for every state.
\<close>

theorem malformed_shape_is_skipped:
  assumes "type_a a = Rectangle \<or> type_a a = Circle" and "length (points a) \<noteq> 2"
  shows "drawAction a =
           Inr [Save, SetLineCap ''round'', SetLineJoin ''round'',
                SetStrokeStyle (color_a a), SetLineWidth (size_a a), SetGlobalAlpha 1,
                Restore]
         \<and> filter drawing_primitive (drawAction_calls a) = []
         \<and> (\<forall>b. \<exists>cs. drawAction b = Inr cs)
         \<and> (\<forall>s. \<exists>cs. redraw s = Inr cs)"
proof -
  have 1: "drawAction a =
           Inr [Save, SetLineCap ''round'', SetLineJoin ''round'',
                SetStrokeStyle (color_a a), SetLineWidth (size_a a), SetGlobalAlpha 1,
                Restore]"
    using assms by (auto simp: drawAction_def)
  then have 2: "filter drawing_primitive (drawAction_calls a) = []"
    by (simp add: drawAction_calls_def)
  have 3: "\<exists>cs. drawAction b = Inr cs" for b
    using drawAction_Inr by blast
  have 4: "\<exists>cs. redraw s = Inr cs" for s
  proof (cases "ctx s")
    case None
    then show ?thesis by (simp add: redraw_def)
  next
    case (Some c)
    then show ?thesis
      by (cases c) (simp add: redraw_def layers_forEach_Inr)
  qed
  from 1 2 3 4 show ?thesis by blast
qed

theorem malformed_shape_is_skipped_witness:
  "(type_a ex_bad_rect = Rectangle \<or> type_a ex_bad_rect = Circle)
   \<and> length (points ex_bad_rect) \<noteq> 2
   \<and> drawAction ex_bad_rect =
       Inr [Save, SetLineCap ''round'', SetLineJoin ''round'',
            SetStrokeStyle ''#22c55e'', SetLineWidth 12, SetGlobalAlpha 1, Restore]
   \<and> filter drawing_primitive (drawAction_calls ex_bad_rect) = []"
  using malformed_shape_is_skipped [of ex_bad_rect]
  by (simp add: ex_bad_rect_def)

text \<open>
  C5. What the \<open>onMouseLeave\<close> handler does to a gesture in progress. It leaves \<open>actions\<close> and
  \<open>redoStack\<close> as they are, and it also leaves \<open>currentPoints\<close> and \<open>startPoint\<close> as they
  are: only \<open>isDrawing\<close> is reset. After a press at \<open>(10, 10)\<close>, a move to \<open>(20, 20)\<close> and a
  leave, the two points are still stored, and a release at \<open>(30, 30)\<close> after the pointer has
  come back commits a stroke through all three points.
\<close>

theorem leave_keeps_gesture_points:
  "actions (onMouseLeave s) = actions s
   \<and> redoStack (onMouseLeave s) = redoStack s
   \<and> currentPoints (onMouseLeave s) = currentPoints s
   \<and> startPoint (onMouseLeave s) = startPoint s
   \<and> currentPoints
         (fold on_event [MouseDown (10, 10), MouseMove (20, 20) (20, 20), MouseLeave]
            ready_state)
       = [(10, 10), (20, 20)]
   \<and> actions
         (fold on_event
            [MouseDown (10, 10), MouseMove (20, 20) (20, 20), MouseLeave, MouseUp (30, 30)]
            ready_state)
       = [\<lparr> type_a = Brush, points = [(10, 10), (20, 20), (30, 30)],
            color_a = ''#2563eb'', size_a = 12, layer = 1 \<rparr>]"
  by (simp add: onMouseLeave_def ready_state_def setCtx_def init_state_def
        handlePointerDown_def handlePointerMove_def handlePointerUp_def
        stroke_tool_def commit_def)

text \<open>
  C6, as the code has it. \<open>handleUndo\<close> on a state with a non-empty \<open>actions\<close> list moves its
  last element to the end of \<open>redoStack\<close>; \<open>handleRedo\<close> on a state with a non-empty
  \<open>redoStack\<close> removes its last element and appends it to the end of \<open>actions\<close>. The redo
  stack holds the most recently undone action last.
\<close>

theorem undo_redo_move_last_to_end:
  "(actions s = cs @ [a] \<longrightarrow>
      handleUndo s = s\<lparr> redoStack := redoStack s @ [a], actions := cs \<rparr>)
   \<and> (redoStack s = us @ [b] \<longrightarrow>
      handleRedo s = s\<lparr> actions := actions s @ [b], redoStack := us \<rparr>)"
  by (simp add: handleUndo_snoc handleRedo_snoc)

theorem undo_redo_move_last_to_end_witness:
  "actions (handleUndo ex_log3) = [ex_stroke] @ [ex_rect]
   \<and> redoStack (handleUndo ex_log3) = [] @ [ex_circle]
   \<and> redoStack (handleUndo (handleUndo ex_log3)) = [ex_circle, ex_rect]
   \<and> actions (handleUndo (handleUndo ex_log3)) = [ex_stroke]
   \<and> actions (handleRedo (handleUndo ex_log3)) = [ex_stroke, ex_rect, ex_circle]
   \<and> redoStack (handleRedo (handleUndo ex_log3)) = []"
  using undo_redo_move_last_to_end
    [of "handleUndo ex_log3" "[ex_stroke]" ex_rect "[]" ex_circle]
  by (simp add: ex_log3_def init_state_def commit_def handleUndo_def handleRedo_def)

text \<open>
  C6, as the claim words it, fails. With three actions committed and the last one undone,
  \<open>redoStack\<close> is \<open>[ex_circle]\<close>. A second undo yields \<open>[ex_circle, ex_rect]\<close>, which is not
  the undone action put in front of the former stack; and the following redo does not
  append the first element of that stack to \<open>actions\<close>.
\<close>

theorem undo_front_of_undone_counterexample:
  "redoStack (handleUndo (handleUndo ex_log3)) = [ex_circle, ex_rect]
   \<and> redoStack (handleUndo (handleUndo ex_log3))
       \<noteq> last (actions (handleUndo ex_log3)) # redoStack (handleUndo ex_log3)
   \<and> actions (handleRedo (handleUndo (handleUndo ex_log3)))
       \<noteq> actions (handleUndo (handleUndo ex_log3))
           @ [hd (redoStack (handleUndo (handleUndo ex_log3)))]"
  by (simp add: ex_log3_def init_state_def commit_def handleUndo_def handleRedo_def
        ex_rect_def ex_circle_def)

text \<open>
  C7. Run any list of commit, undo, redo and clear-layer operations from a state whose log
  is empty. Then the actions held in \<open>actions\<close> and \<open>redoStack\<close> together form a
  sub-multiset of the actions that were committed: no operation ever makes a second copy.
  When the committed actions are pairwise different (as the objects built by separate
  pointer releases are), no action occurs twice in the two lists taken together, so none
  is in both.
\<close>

theorem log_actions_never_duplicated:
  assumes "actions s0 = []" and "redoStack s0 = []"
  shows "mset (actions (fold apply_op ops s0)) + mset (redoStack (fold apply_op ops s0))
           \<subseteq># mset (created ops)
         \<and> (distinct (created ops) \<longrightarrow>
              distinct (actions (fold apply_op ops s0) @ redoStack (fold apply_op ops s0))
              \<and> set (actions (fold apply_op ops s0)) \<inter> set (redoStack (fold apply_op ops s0)) = {})"
proof -
  let ?s = "fold apply_op ops s0"
  have sub: "mset (actions ?s @ redoStack ?s) \<subseteq># mset (created ops)"
    using run_mset [of ops s0] assms by simp
  then have "distinct (actions ?s @ redoStack ?s)" if "distinct (created ops)"
    using that by (rule distinct_of_mset_subset)
  then show ?thesis using sub by simp
qed

theorem log_actions_never_duplicated_witness:
  "actions init_state = [] \<and> redoStack init_state = []
   \<and> distinct (created [Commit ex_stroke, Commit ex_rect, Commit ex_circle, ClearLayer 0, Undo])
   \<and> actions (fold apply_op
        [Commit ex_stroke, Commit ex_rect, Commit ex_circle, ClearLayer 0, Undo] init_state)
       = [ex_rect]
   \<and> redoStack (fold apply_op
        [Commit ex_stroke, Commit ex_rect, Commit ex_circle, ClearLayer 0, Undo] init_state)
       = [ex_circle]
   \<and> distinct
        (actions (fold apply_op
           [Commit ex_stroke, Commit ex_rect, Commit ex_circle, ClearLayer 0, Undo] init_state)
         @ redoStack (fold apply_op
           [Commit ex_stroke, Commit ex_rect, Commit ex_circle, ClearLayer 0, Undo] init_state))"
  using log_actions_never_duplicated
    [of init_state "[Commit ex_stroke, Commit ex_rect, Commit ex_circle, ClearLayer 0, Undo]"]
  by (simp add: init_state_def commit_def handleUndo_def handleClear_def setCurrentLayer_def
        ex_stroke_def ex_rect_def ex_circle_def)

text \<open>
  C9. \<open>handleUndo\<close> on a state whose \<open>actions\<close> list is empty, and \<open>handleRedo\<close> on a state
  whose \<open>redoStack\<close> is empty, return the state as it was: both lists, and every other
  cell, are unchanged. Neither handler has a failing branch.
\<close>

theorem undo_redo_on_empty_are_noops:
  "(actions s = [] \<longrightarrow> handleUndo s = s) \<and> (redoStack s = [] \<longrightarrow> handleRedo s = s)"
  by (simp add: handleUndo_empty handleRedo_empty)

theorem undo_redo_on_empty_are_noops_witness:
  "actions init_state = [] \<and> handleUndo init_state = init_state
   \<and> redoStack init_state = [] \<and> handleRedo init_state = init_state"
  using undo_redo_on_empty_are_noops [of init_state]
  by (simp add: init_state_def)

end
